theory Spec2Isabelle
  imports Main "HOL-Library.Option_ord" "HOL-Library.Multiset"
begin

section \<open>The feed aggregator: data model\<close>

text \<open>
  The development follows the Go packages \<^verbatim>\<open>db\<close> and \<^verbatim>\<open>aggregator\<close>.
  Timestamps and durations are integers counting nanoseconds (a timestamp since the Unix
  epoch), UUIDs and channels are natural numbers, Go's \<^verbatim>\<open>int\<close> is \<^typ>\<open>int\<close> (the code
  does no arithmetic on it beyond counting a loop up to a bound that was itself read from
  an \<^verbatim>\<open>int\<close>). Calls of \<^verbatim>\<open>fmt.Printf\<close> only write to the log and are left out.
  Each function is the call of one goroutine run to its end; how the goroutines
  interleave is not part of the model.
\<close>

type_synonym uuid = nat
type_synonym time = int
type_synonym duration = int
type_synonym chan = nat

datatype sql_failure = ConnFailure | NegativeLimit | UniqueViolation | ForeignKeyViolation

datatype error = Errorf string | SqlError sql_failure

text \<open>
  The rendering of an error by the verb \<^verbatim>\<open>%v\<close>. Only the error of \<^verbatim>\<open>Resize\<close>, made by
  \<^verbatim>\<open>fmt.Errorf\<close>, is ever written to a connection; the text of a store error stands for
  whatever the driver reports.
\<close>

fun Error :: "error \<Rightarrow> string" where
  "Error (Errorf s) = s"
| "Error (SqlError f) = ''pq: error''"

text \<open>The struct \<^verbatim>\<open>models.Feed\<close>, as \<^verbatim>\<open>rows.Scan\<close> fills it.\<close>

record Feed =
  ID :: uuid
  CreatedAt :: time
  UpdatedAt :: time
  Name :: string
  URL :: string

text \<open>
  The fields of \<^verbatim>\<open>models.Article\<close> that the worker sets and \<^verbatim>\<open>InsertArticle\<close> passes to the
  store.
\<close>

record Article =
  Title :: string
  Link :: string
  Description :: string
  PublishedAt :: time
  FeedID :: uuid

text \<open>One element of \<^verbatim>\<open>rssFeed.Channel.Item\<close>.\<close>

record Item =
  item_Title :: string
  item_Link :: string
  item_Description :: string
  item_PubDate :: string

text \<open>The rows of the tables \<^verbatim>\<open>feeds\<close> and \<^verbatim>\<open>articles\<close> that \<^verbatim>\<open>initSchema\<close> creates.\<close>

record feed_row =
  f_id :: uuid
  f_created_at :: time
  f_updated_at :: "time option"
  f_name :: string
  f_url :: string

record article_row =
  ar_id :: uuid
  ar_created_at :: time
  ar_updated_at :: "time option"
  ar_title :: string
  ar_link :: string
  ar_published_at :: time
  ar_description :: string
  ar_feed_id :: uuid

text \<open>
  The store. \<open>clock\<close> is what \<^verbatim>\<open>CURRENT_TIMESTAMP\<close> reads, \<open>next_uuid\<close> what
  \<^verbatim>\<open>uuid_generate_v4()\<close> hands out next. \<open>faults\<close> decides, call by call, whether the next
  statement fails for a reason outside the data (a lost connection, a scan error): each
  call consumes its head, and an empty list means no such failure.
\<close>

record DB =
  feeds :: "feed_row list"
  articles :: "article_row list"
  clock :: time
  next_uuid :: uuid
  faults :: "bool list"

text \<open>
  The functions the code calls in the Go library and in the package \<^verbatim>\<open>rss\<close>, whose
  sources are not part of the two packages: they are parameters of the model.
\<close>

record env =
  FetchAndParse :: "string \<Rightarrow> error + Item list"
  time_Parse :: "string \<Rightarrow> string \<Rightarrow> time option"
  ParseDuration :: "string \<Rightarrow> duration option"
  Atoi :: "string \<Rightarrow> int option"
  TrimSpace :: "string \<Rightarrow> string"
  Duration_String :: "duration \<Rightarrow> string"

section \<open>Package db\<close>

definition io_fault :: "DB \<Rightarrow> bool \<times> DB" where
  "io_fault d = (case faults d of [] \<Rightarrow> (False, d) | b # bs \<Rightarrow> (b, d\<lparr>faults := bs\<rparr>))"

text \<open>The value of a \<^verbatim>\<open>time.Time\<close> that was never assigned.\<close>

definition zero_Time :: time where
  "zero_Time = - 62135596800000000000"

definition scan_feed :: "feed_row \<Rightarrow> Feed" where
  "scan_feed r = \<lparr>ID = f_id r, CreatedAt = f_created_at r,
     UpdatedAt = (case f_updated_at r of None \<Rightarrow> zero_Time | Some t \<Rightarrow> t),
     Name = f_name r, URL = f_url r\<rparr>"

text \<open>
  \<^verbatim>\<open>ORDER BY updated_at ASC NULLS FIRST\<close>: the order of \<^typ>\<open>time option\<close> puts \<open>None\<close>
  below every \<open>Some t\<close>. Rows with equal keys keep their table order here; SQL leaves
  their order open, and nothing below depends on it.
\<close>

definition order_by_updated_at :: "feed_row list \<Rightarrow> feed_row list" where
  "order_by_updated_at rows = sort_key f_updated_at rows"

definition outdated_rows :: "int \<Rightarrow> feed_row list \<Rightarrow> feed_row list" where
  "outdated_rows limit rows = take (nat limit) (order_by_updated_at rows)"

definition GetOutdatedFeeds :: "int \<Rightarrow> DB \<Rightarrow> (error + Feed list) \<times> DB" where
  "GetOutdatedFeeds limit d =
     (case io_fault d of
        (True, d') \<Rightarrow> (Inl (SqlError ConnFailure), d')
      | (False, d') \<Rightarrow>
          if limit < 0 then (Inl (SqlError NegativeLimit), d')
          else (Inr (map scan_feed (outdated_rows limit (feeds d'))), d'))"

definition article_count :: "uuid \<Rightarrow> string \<Rightarrow> DB \<Rightarrow> nat" where
  "article_count feedID link d =
     length (filter (\<lambda>r. ar_feed_id r = feedID \<and> ar_link r = link) (articles d))"

text \<open>\<^verbatim>\<open>ArticleExists\<close> returns \<^verbatim>\<open>count > 0, err\<close>; on an error \<^verbatim>\<open>count\<close> is still 0.\<close>

definition ArticleExists :: "uuid \<Rightarrow> string \<Rightarrow> DB \<Rightarrow> (bool \<times> error option) \<times> DB" where
  "ArticleExists feedID link d =
     (case io_fault d of
        (True, d') \<Rightarrow> ((False, Some (SqlError ConnFailure)), d')
      | (False, d') \<Rightarrow> ((0 < article_count feedID link d', None), d'))"

text \<open>
  \<^verbatim>\<open>InsertArticle\<close>: the statement is refused when the feed is gone
  (\<^verbatim>\<open>feed_id UUID REFERENCES feeds(id)\<close>) and when the unique index
  \<^verbatim>\<open>articles_feed_link_idx\<close> on \<^verbatim>\<open>(feed_id, link)\<close> already holds the pair.
\<close>

definition InsertArticle :: "Article \<Rightarrow> DB \<Rightarrow> error option \<times> DB" where
  "InsertArticle article d =
     (case io_fault d of
        (True, d') \<Rightarrow> (Some (SqlError ConnFailure), d')
      | (False, d') \<Rightarrow>
          if FeedID article \<notin> f_id ` set (feeds d') then (Some (SqlError ForeignKeyViolation), d')
          else if 0 < article_count (FeedID article) (Link article) d'
            then (Some (SqlError UniqueViolation), d')
          else (None, d'\<lparr>articles := articles d' @
                  [\<lparr>ar_id = next_uuid d', ar_created_at = clock d', ar_updated_at = None,
                    ar_title = Title article, ar_link = Link article,
                    ar_published_at = PublishedAt article,
                    ar_description = Description article, ar_feed_id = FeedID article\<rparr>],
                  next_uuid := Suc (next_uuid d')\<rparr>))"

definition UpdateFeedUpdatedAt :: "uuid \<Rightarrow> DB \<Rightarrow> error option \<times> DB" where
  "UpdateFeedUpdatedAt i d =
     (case io_fault d of
        (True, d') \<Rightarrow> (Some (SqlError ConnFailure), d')
      | (False, d') \<Rightarrow>
          (None, d'\<lparr>feeds := map (\<lambda>r. if f_id r = i then r\<lparr>f_updated_at := Some (clock d')\<rparr> else r)
                                (feeds d')\<rparr>))"

section \<open>Package aggregator: the date normaliser and the worker\<close>

text \<open>
  The layouts \<^verbatim>\<open>time.RFC1123\<close>, \<^verbatim>\<open>time.RFC1123Z\<close>, \<^verbatim>\<open>time.RFC822\<close>, \<^verbatim>\<open>time.RFC822Z\<close>
  and the two ISO 8601 variants, in the order of the slice \<^verbatim>\<open>formats\<close>.
\<close>

definition formats :: "string list" where
  "formats =
     [''Mon, 02 Jan 2006 15:04:05 MST'',
      ''Mon, 02 Jan 2006 15:04:05 -0700'',
      ''02 Jan 06 15:04 MST'',
      ''02 Jan 06 15:04 -0700'',
      ''2006-01-02T15:04:05Z'',
      ''2006-01-02T15:04:05-07:00'']"

text \<open>The loop \<^verbatim>\<open>for _, f := range formats\<close>, leaving at the first layout that parses.\<close>

fun try_formats :: "(string \<Rightarrow> string \<Rightarrow> time option) \<Rightarrow> string list \<Rightarrow> string \<Rightarrow> time option" where
  "try_formats parse [] s = None"
| "try_formats parse (f # fs) s =
     (case parse f s of Some t \<Rightarrow> Some t | None \<Rightarrow> try_formats parse fs s)"

definition parsePubDate :: "env \<Rightarrow> string \<Rightarrow> error + time" where
  "parsePubDate e s =
     (case try_formats (time_Parse e) formats s of
        Some t \<Rightarrow> Inr t
      | None \<Rightarrow> Inl (Errorf (''no matching format for pubDate: '' @ s)))"

text \<open>The body of the loop over the items of a fetched feed.\<close>

definition process_item :: "env \<Rightarrow> Feed \<Rightarrow> Item \<Rightarrow> DB \<Rightarrow> DB" where
  "process_item e feed item d =
     (case parsePubDate e (item_PubDate item) of
        Inl err \<Rightarrow> d
      | Inr pubDate \<Rightarrow>
          (let article = \<lparr>Title = item_Title item, Link = item_Link item,
                          Description = item_Description item, PublishedAt = pubDate,
                          FeedID = ID feed\<rparr>
           in case ArticleExists (ID feed) (Link article) d of
                ((ex, Some err), d1) \<Rightarrow> d1
              | ((True, None), d1) \<Rightarrow> d1
              | ((False, None), d1) \<Rightarrow> snd (InsertArticle article d1)))"

fun process_items :: "env \<Rightarrow> Feed \<Rightarrow> Item list \<Rightarrow> DB \<Rightarrow> DB" where
  "process_items e feed [] d = d"
| "process_items e feed (item # items) d = process_items e feed items (process_item e feed item d)"

text \<open>
  The branch \<^verbatim>\<open>case feed := <-a.jobs\<close> of the worker: what one runner does to the store
  with a feed it has received. A failed fetch leaves by \<^verbatim>\<open>continue\<close>.
\<close>

definition worker_job :: "env \<Rightarrow> Feed \<Rightarrow> DB \<Rightarrow> DB" where
  "worker_job e feed d =
     (case FetchAndParse e (URL feed) of
        Inl err \<Rightarrow> d
      | Inr items \<Rightarrow> snd (UpdateFeedUpdatedAt (ID feed) (process_items e feed items d)))"

section \<open>Package aggregator: the pool, the scheduler and the control server\<close>

text \<open>
  A call either returns or panics; a panic in any goroutine ends the process, so it
  carries no state.
\<close>

datatype 'a outcome = Returned 'a | Panicked

text \<open>
  A \<^verbatim>\<open>time.Ticker\<close>: its period and the time of its next tick. \<^verbatim>\<open>NewTicker\<close> and
  \<^verbatim>\<open>Reset\<close> panic on a period that is not positive; after either, the next tick comes
  one period after the call.
\<close>

record Ticker =
  period :: duration
  next_tick :: time

definition NewTicker :: "time \<Rightarrow> duration \<Rightarrow> Ticker outcome" where
  "NewTicker now dur = (if dur \<le> 0 then Panicked else Returned \<lparr>period = dur, next_tick = now + dur\<rparr>)"

definition Ticker_Reset :: "time \<Rightarrow> duration \<Rightarrow> Ticker \<Rightarrow> Ticker outcome" where
  "Ticker_Reset now dur t =
     (if dur \<le> 0 then Panicked else Returned (t\<lparr>period := dur, next_tick := now + dur\<rparr>))"

text \<open>
  The fields of the struct \<^verbatim>\<open>Aggregator\<close> that the scheduler, the pool and the control
  server use. \<open>jobs\<close> is the content of the channel \<^verbatim>\<open>a.jobs\<close>, oldest first: a send
  appends (and waits while the channel holds \<open>jobs_cap\<close> values, which delays the send and
  does not reorder it). \<open>ticker\<close> is \<open>None\<close> while the pointer is nil, and \<open>wg\<close>
  counts the calls \<^verbatim>\<open>a.wg.Add(1)\<close>.
\<close>

record Aggregator =
  interval :: duration
  workers :: int
  ticker :: "Ticker option"
  jobs :: "Feed list"
  jobs_cap :: int
  wg :: nat
  doneChans :: "chan list"

text \<open>
  What lives outside the struct: the channels made so far (\<open>next_chan\<close> is the next one
  \<^verbatim>\<open>make\<close> returns), the channels closed so far in the order of the \<^verbatim>\<open>close\<close> calls, and
  the goroutines started so far in the order of the \<^verbatim>\<open>go\<close> statements. A worker is
  started with its own stop channel and reads the one queue \<^verbatim>\<open>a.jobs\<close>.
\<close>

datatype goroutine = Worker chan | TickLoop | ControlLoop

record runtime =
  next_chan :: chan
  closed_chans :: "chan list"
  goroutines :: "goroutine list"

definition NewAggregator :: "duration \<Rightarrow> int \<Rightarrow> Aggregator" where
  "NewAggregator interval0 workers0 =
     \<lparr>interval = interval0, workers = workers0, ticker = None, jobs = [], jobs_cap = 0,
      wg = 0, doneChans = []\<rparr>"

text \<open>
  The loop body \<^verbatim>\<open>done := make(chan struct{}); a.doneChans = append(a.doneChans, done);
  a.wg.Add(1); go a.worker(done)\<close>, run \<open>n\<close> times.
\<close>

fun spawn_workers :: "nat \<Rightarrow> Aggregator \<times> runtime \<Rightarrow> Aggregator \<times> runtime" where
  "spawn_workers 0 s = s"
| "spawn_workers (Suc n) (a, rt) =
     spawn_workers n
       (a\<lparr>doneChans := doneChans a @ [next_chan rt], wg := Suc (wg a)\<rparr>,
        rt\<lparr>next_chan := Suc (next_chan rt), goroutines := goroutines rt @ [Worker (next_chan rt)]\<rparr>)"

text \<open>\<^verbatim>\<open>close\<close> panics on a channel that is closed already.\<close>

definition close_chan :: "chan \<Rightarrow> runtime \<Rightarrow> runtime outcome" where
  "close_chan c rt =
     (if c \<in> set (closed_chans rt) then Panicked
      else Returned (rt\<lparr>closed_chans := closed_chans rt @ [c]\<rparr>))"

text \<open>
  The loop \<^verbatim>\<open>close(a.doneChans[i])\<close> over the indices \<open>is\<close>; an index outside the slice
  panics.
\<close>

fun close_each :: "chan list \<Rightarrow> nat list \<Rightarrow> runtime \<Rightarrow> runtime outcome" where
  "close_each cs [] rt = Returned rt"
| "close_each cs (i # is) rt =
     (if i < length cs
      then (case close_chan (cs ! i) rt of Panicked \<Rightarrow> Panicked | Returned rt' \<Rightarrow> close_each cs is rt')
      else Panicked)"

definition Resize :: "int \<Rightarrow> Aggregator \<Rightarrow> runtime \<Rightarrow> (error option \<times> Aggregator \<times> runtime) outcome" where
  "Resize newWorkers a rt =
     (if newWorkers < 1 then Returned (Some (Errorf ''workers must be at least 1''), a, rt)
      else
        let oldWorkers = workers a;
            a1 = a\<lparr>workers := newWorkers\<rparr>
        in if newWorkers > oldWorkers
           then (case spawn_workers (nat (newWorkers - oldWorkers)) (a1, rt) of
                   (a2, rt2) \<Rightarrow> Returned (None, a2, rt2))
           else if newWorkers < oldWorkers
           then (case close_each (doneChans a1) [nat newWorkers ..< nat oldWorkers] rt of
                   Panicked \<Rightarrow> Panicked
                 | Returned rt2 \<Rightarrow>
                     Returned (None, a1\<lparr>doneChans := take (nat newWorkers) (doneChans a1)\<rparr>, rt2))
           else Returned (None, a1, rt))"

text \<open>
  \<^verbatim>\<open>Start\<close> at time \<open>now\<close>; \<open>listen\<close> is what \<^verbatim>\<open>net.Listen\<close> returns as its error.
  \<^verbatim>\<open>make(chan models.Feed, a.workers)\<close> panics on a negative size.
\<close>

definition Start :: "time \<Rightarrow> error option \<Rightarrow> Aggregator \<Rightarrow> runtime \<Rightarrow> (error option \<times> Aggregator \<times> runtime) outcome" where
  "Start now listen a rt =
     (case NewTicker now (interval a) of
        Panicked \<Rightarrow> Panicked
      | Returned t \<Rightarrow>
          if workers a < 0 then Panicked
          else
            (case spawn_workers (nat (workers a))
                    (a\<lparr>ticker := Some t, jobs := [], jobs_cap := workers a\<rparr>, rt) of
               (a2, rt2) \<Rightarrow>
                 let rt3 = rt2\<lparr>goroutines := goroutines rt2 @ [TickLoop]\<rparr>
                 in (case listen of
                       Some err \<Rightarrow> Returned (Some err, a2, rt3)
                     | None \<Rightarrow> Returned (None, a2, rt3\<lparr>goroutines := goroutines rt3 @ [ControlLoop]\<rparr>))))"

text \<open>The loop \<^verbatim>\<open>for _, feed := range feeds { a.jobs <- feed }\<close>.\<close>

fun send_all :: "Feed list \<Rightarrow> Feed list \<Rightarrow> Feed list" where
  "send_all q [] = q"
| "send_all q (feed # fs) = send_all (q @ [feed]) fs"

text \<open>The branch \<^verbatim>\<open>case <-a.ticker.C\<close> of the scheduler's loop: one tick.\<close>

definition tick :: "Aggregator \<Rightarrow> DB \<Rightarrow> Aggregator \<times> DB" where
  "tick a d =
     (case GetOutdatedFeeds (workers a) d of
        (Inl err, d') \<Rightarrow> (a, d')
      | (Inr fs, d') \<Rightarrow> (a\<lparr>jobs := send_all (jobs a) fs\<rparr>, d'))"

text \<open>\<^verbatim>\<open>strings.Split(s, " ")\<close>: the pieces between the spaces, one more than there are spaces.\<close>

fun Split :: "string \<Rightarrow> string list" where
  "Split [] = [[]]"
| "Split (c # cs) =
     (if c = CHR '' '' then [] # Split cs
      else (case Split cs of [] \<Rightarrow> [[c]] | p # ps \<Rightarrow> (c # p) # ps))"

text \<open>The verb \<^verbatim>\<open>%d\<close> on an \<^verbatim>\<open>int\<close>.\<close>

fun digits :: "nat \<Rightarrow> string" where
  "digits n = (if n < 10 then [''0123456789'' ! n] else digits (n div 10) @ [''0123456789'' ! (n mod 10)])"

declare digits.simps [simp del]

definition fmt_d :: "int \<Rightarrow> string" where
  "fmt_d i = (if i < 0 then CHR ''-'' # digits (nat (- i)) else digits (nat i))"

definition newline :: string where
  "newline = [CHR 0x0A]"

text \<open>
  A control connection: what the server has written to it and whether it is closed.
  \<^verbatim>\<open>defer conn.Close()\<close> closes it on every return.
\<close>

record Conn =
  written :: "string list"
  conn_closed :: bool

definition hangup :: "string list \<Rightarrow> Aggregator \<Rightarrow> runtime \<Rightarrow> (Conn \<times> Aggregator \<times> runtime) outcome" where
  "hangup ws a rt = Returned (\<lparr>written = ws, conn_closed = True\<rparr>, a, rt)"

text \<open>
  \<^verbatim>\<open>handleControl\<close> at time \<open>now\<close>. \<open>input\<close> is what \<^verbatim>\<open>conn.Read\<close> returns: \<open>None\<close> for an
  error, else the bytes \<^verbatim>\<open>buf[:n]\<close>. The switch has no default.
\<close>

definition handleControl :: "env \<Rightarrow> time \<Rightarrow> string option \<Rightarrow> Aggregator \<Rightarrow> runtime \<Rightarrow> (Conn \<times> Aggregator \<times> runtime) outcome" where
  "handleControl e now input a rt =
     (case input of
        None \<Rightarrow> hangup [] a rt
      | Some bytes \<Rightarrow>
          let cmd = TrimSpace e bytes;
              parts = Split cmd
          in if length parts < 2 then hangup [] a rt
             else if parts ! 0 = ''set-interval'' then
               (case ParseDuration e (parts ! 1) of
                  None \<Rightarrow> hangup [''Invalid duration'' @ newline] a rt
                | Some dur \<Rightarrow>
                    let old = interval a;
                        a1 = a\<lparr>interval := dur\<rparr>
                    in (case ticker a1 of
                          None \<Rightarrow> Panicked
                        | Some t \<Rightarrow>
                            (case Ticker_Reset now dur t of
                               Panicked \<Rightarrow> Panicked
                             | Returned t' \<Rightarrow>
                                 hangup [''Interval of fetching feeds changed from '' @ Duration_String e old
                                           @ '' to '' @ Duration_String e dur @ newline]
                                   (a1\<lparr>ticker := Some t'\<rparr>) rt)))
             else if parts ! 0 = ''set-workers'' then
               (case Atoi e (parts ! 1) of
                  None \<Rightarrow> hangup [''Invalid count'' @ newline] a rt
                | Some cnt \<Rightarrow>
                    let old = workers a
                    in (case Resize cnt a rt of
                          Panicked \<Rightarrow> Panicked
                        | Returned (Some err, a1, rt1) \<Rightarrow>
                            hangup [''Error resizing workers: '' @ Error err @ newline] a1 rt1
                        | Returned (None, a1, rt1) \<Rightarrow>
                            hangup [''Number of workers changed from '' @ fmt_d old @ '' to ''
                                      @ fmt_d cnt @ newline] a1 rt1))
             else hangup [] a rt)"

section \<open>Invariants and sample data\<close>

text \<open>
  The pool is consistent when there is one tracked stop channel per counted worker, the
  tracked channels are pairwise different, none of them is closed, and every tracked or
  closed channel was made by \<^verbatim>\<open>make\<close>. \<^verbatim>\<open>Start\<close> establishes this and \<^verbatim>\<open>Resize\<close> keeps it (shown below).
\<close>

definition pool_ok :: "Aggregator \<Rightarrow> runtime \<Rightarrow> bool" where
  "pool_ok a rt =
     (0 \<le> workers a \<and> length (doneChans a) = nat (workers a) \<and> distinct (doneChans a) \<and>
      list_all (\<lambda>c. c < next_chan rt \<and> c \<notin> set (closed_chans rt)) (doneChans a) \<and>
      list_all (\<lambda>c. c < next_chan rt) (closed_chans rt))"

text \<open>The unique index \<^verbatim>\<open>articles_feed_link_idx\<close> holds in a store.\<close>

definition unique_links :: "DB \<Rightarrow> bool" where
  "unique_links d = distinct (map (\<lambda>r. (ar_feed_id r, ar_link r)) (articles d))"

text \<open>The last-refreshed column of the rows of feed \<open>i\<close>.\<close>

definition refreshed_at :: "uuid \<Rightarrow> DB \<Rightarrow> time option list" where
  "refreshed_at i d = map f_updated_at (filter (\<lambda>r. f_id r = i) (feeds d))"

text \<open>
  The spec's order "most overdue first": a feed never refreshed comes before every
  refreshed one, refreshed feeds come oldest first.
\<close>

definition most_overdue_first :: "feed_row \<Rightarrow> feed_row \<Rightarrow> bool" where
  "most_overdue_first r s =
     (case f_updated_at r of
        None \<Rightarrow> True
      | Some t \<Rightarrow> (case f_updated_at s of None \<Rightarrow> False | Some u \<Rightarrow> t \<le> u))"

text \<open>
  A library environment for evaluating the model at concrete inputs. \<open>decimal_Atoi\<close>
  follows \<^verbatim>\<open>strconv.Atoi\<close> on a 64-bit platform (an optional sign, decimal digits, the
  range of \<^verbatim>\<open>int\<close>); \<open>ascii_TrimSpace\<close> is \<^verbatim>\<open>strings.TrimSpace\<close> on ASCII input; the other
  functions are finite tables that agree with the Go library at the arguments listed.
\<close>

definition is_space :: "char \<Rightarrow> bool" where
  "is_space c = (c \<in> set [CHR '' '', CHR 0x09, CHR 0x0A, CHR 0x0B, CHR 0x0C, CHR 0x0D])"

definition ascii_TrimSpace :: "string \<Rightarrow> string" where
  "ascii_TrimSpace s = rev (dropWhile is_space (rev (dropWhile is_space s)))"

definition digit_val :: "char \<Rightarrow> nat option" where
  "digit_val = map_of [(CHR ''0'', 0), (CHR ''1'', 1), (CHR ''2'', 2), (CHR ''3'', 3), (CHR ''4'', 4),
                       (CHR ''5'', 5), (CHR ''6'', 6), (CHR ''7'', 7), (CHR ''8'', 8), (CHR ''9'', 9)]"

fun parse_digits :: "nat \<Rightarrow> string \<Rightarrow> nat option" where
  "parse_digits n [] = Some n"
| "parse_digits n (c # cs) =
     (case digit_val c of None \<Rightarrow> None | Some v \<Rightarrow> parse_digits (n * 10 + v) cs)"

definition decimal_Atoi :: "string \<Rightarrow> int option" where
  "decimal_Atoi s =
     (let (neg, ds) = (case s of
                         [] \<Rightarrow> (False, [])
                       | c # cs \<Rightarrow> if c = CHR ''-'' then (True, cs)
                                   else if c = CHR ''+'' then (False, cs) else (False, s))
      in if ds = [] then None
         else (case parse_digits 0 ds of
                 None \<Rightarrow> None
               | Some n \<Rightarrow>
                   let v = (if neg then - int n else int n)
                   in if - (2 ^ 63) \<le> v \<and> v < 2 ^ 63 then Some v else None))"

definition sample_items :: "Item list" where
  "sample_items =
     [\<lparr>item_Title = ''First'', item_Link = ''http://up.example/1'', item_Description = ''one'',
       item_PubDate = ''2024-08-20T10:20:30Z''\<rparr>,
      \<lparr>item_Title = ''Second'', item_Link = ''http://up.example/2'', item_Description = ''two'',
       item_PubDate = ''yesterday''\<rparr>,
      \<lparr>item_Title = ''First again'', item_Link = ''http://up.example/1'', item_Description = ''one'',
       item_PubDate = ''2024-08-20T10:20:30Z''\<rparr>]"

definition sample_env :: env where
  "sample_env =
     \<lparr>FetchAndParse = (\<lambda>url. if url = ''http://up.example/rss'' then Inr sample_items
                              else Inl (Errorf ''connection refused'')),
      time_Parse = (\<lambda>layout v. if layout = ''2006-01-02T15:04:05Z'' \<and> v = ''2024-08-20T10:20:30Z''
                                then Some 1724149230000000000 else None),
      ParseDuration = map_of [(''0s'', 0), (''-1s'', - 1000000000), (''5m'', 300000000000)],
      Atoi = decimal_Atoi,
      TrimSpace = ascii_TrimSpace,
      Duration_String = (\<lambda>dur. if dur = 180000000000 then ''3m0s''
                                else if dur = 300000000000 then ''5m0s'' else ''0s'')\<rparr>"

definition sample_db :: DB where
  "sample_db =
     \<lparr>feeds =
        [\<lparr>f_id = 1, f_created_at = 10, f_updated_at = Some 500, f_name = ''up'',
          f_url = ''http://up.example/rss''\<rparr>,
         \<lparr>f_id = 2, f_created_at = 20, f_updated_at = None, f_name = ''down'',
          f_url = ''http://down.example/rss''\<rparr>,
         \<lparr>f_id = 3, f_created_at = 30, f_updated_at = Some 400, f_name = ''old'',
          f_url = ''http://old.example/rss''\<rparr>],
      articles = [], clock = 1000, next_uuid = 100, faults = []\<rparr>"

definition up_feed :: Feed where
  "up_feed = \<lparr>ID = 1, CreatedAt = 10, UpdatedAt = 500, Name = ''up'', URL = ''http://up.example/rss''\<rparr>"

definition down_feed :: Feed where
  "down_feed = \<lparr>ID = 2, CreatedAt = 20, UpdatedAt = zero_Time, Name = ''down'',
                 URL = ''http://down.example/rss''\<rparr>"

definition empty_runtime :: runtime where
  "empty_runtime = \<lparr>next_chan = 0, closed_chans = [], goroutines = []\<rparr>"

text \<open>The aggregator after \<^verbatim>\<open>NewAggregator\<close> with three workers and \<^verbatim>\<open>Start\<close> at time 0.\<close>

definition started :: "Aggregator \<times> runtime" where
  "started = (case Start 0 None (NewAggregator 180000000000 3) empty_runtime of
                Returned (err, a, rt) \<Rightarrow> (a, rt)
              | Panicked \<Rightarrow> (NewAggregator 180000000000 3, empty_runtime))"

section \<open>The date normaliser\<close>

lemma try_formats_None_iff:
  "try_formats parse fs s = None \<longleftrightarrow> (\<forall>f\<in>set fs. parse f s = None)"
  by (induction fs) (auto split: option.splits)

lemma try_formats_Some_iff:
  "try_formats parse fs s = Some t \<longleftrightarrow>
     (\<exists>i<length fs. parse (fs ! i) s = Some t \<and> (\<forall>j<i. parse (fs ! j) s = None))"
proof (induction fs)
  case Nil
  show ?case by simp
next
  case (Cons f fs)
  show ?case
  proof (cases "parse f s")
    case None
    have "(\<exists>i<length (f # fs). parse ((f # fs) ! i) s = Some t \<and> (\<forall>j<i. parse ((f # fs) ! j) s = None))
          \<longleftrightarrow> (\<exists>i<length fs. parse (fs ! i) s = Some t \<and> (\<forall>j<i. parse (fs ! j) s = None))"
      (is "?L \<longleftrightarrow> ?R")
    proof
      assume ?L
      then obtain i where i: "i < length (f # fs)" "parse ((f # fs) ! i) s = Some t"
        "\<forall>j<i. parse ((f # fs) ! j) s = None" by blast
      from i(2) None obtain k where k: "i = Suc k" by (cases i) auto
      have "\<forall>j<k. parse (fs ! j) s = None"
      proof (intro allI impI)
        fix j assume "j < k"
        then have "Suc j < i" using k by simp
        with i(3) have "parse ((f # fs) ! Suc j) s = None" by blast
        then show "parse (fs ! j) s = None" by simp
      qed
      with i k show ?R by auto
    next
      assume ?R
      then obtain i where i: "i < length fs" "parse (fs ! i) s = Some t"
        "\<forall>j<i. parse (fs ! j) s = None" by blast
      have "\<forall>j<Suc i. parse ((f # fs) ! j) s = None"
      proof (intro allI impI)
        fix j assume "j < Suc i"
        then show "parse ((f # fs) ! j) s = None" using None i(3) by (cases j) auto
      qed
      with i show ?L by (intro exI[of _ "Suc i"]) auto
    qed
    with None Cons show ?thesis by simp
  next
    case (Some u)
    have "(\<exists>i<length (f # fs). parse ((f # fs) ! i) s = Some t \<and> (\<forall>j<i. parse ((f # fs) ! j) s = None))
          \<longleftrightarrow> u = t" (is "?L \<longleftrightarrow> _")
    proof
      assume ?L
      then obtain i where i: "parse ((f # fs) ! i) s = Some t"
        "\<forall>j<i. parse ((f # fs) ! j) s = None" by blast
      have "i = 0"
      proof (rule ccontr)
        assume "i \<noteq> 0"
        then have "parse ((f # fs) ! 0) s = None" using i(2) by blast
        with Some show False by simp
      qed
      with i Some show "u = t" by simp
    next
      assume "u = t"
      with Some show ?L by (intro exI[of _ 0]) auto
    qed
    with Some show ?thesis by simp
  qed
qed

lemma parsePubDate_Inl_iff:
  "parsePubDate e s = Inl err \<longleftrightarrow>
     err = Errorf (''no matching format for pubDate: '' @ s) \<and> try_formats (time_Parse e) formats s = None"
  by (auto simp: parsePubDate_def split: option.splits)

lemma parsePubDate_Inr_iff:
  "parsePubDate e s = Inr t \<longleftrightarrow> try_formats (time_Parse e) formats s = Some t"
  by (auto simp: parsePubDate_def split: option.splits)

lemma process_item_unparseable:
  "parsePubDate e (item_PubDate item) = Inl err \<Longrightarrow> process_item e feed item d = d"
  by (simp add: process_item_def)

lemma process_items_append:
  "process_items e feed (xs @ ys) d = process_items e feed ys (process_items e feed xs d)"
  by (induction xs arbitrary: d) auto

text \<open>
  Claim C5. \<^verbatim>\<open>parsePubDate\<close> returns a time exactly when some layout of \<open>formats\<close>
  parses the string, and then it is the result of the first such layout in the order of
  the list. It fails, with the error "no matching format for pubDate", exactly when no
  layout parses the string, and with no other error. The worker then skips that entry and
  nothing else: the store is as if the entry had not been in the feed.
\<close>

theorem parsePubDate_first_format:
  "(parsePubDate e s = Inr t \<longleftrightarrow>
      (\<exists>i<length formats. time_Parse e (formats ! i) s = Some t \<and>
                          (\<forall>j<i. time_Parse e (formats ! j) s = None))) \<and>
   (parsePubDate e s = Inl (Errorf (''no matching format for pubDate: '' @ s)) \<longleftrightarrow>
      (\<forall>f\<in>set formats. time_Parse e f s = None)) \<and>
   (parsePubDate e s = Inl err \<longrightarrow> err = Errorf (''no matching format for pubDate: '' @ s)) \<and>
   (item_PubDate item = s \<and> (\<forall>f\<in>set formats. time_Parse e f s = None) \<longrightarrow>
      process_item e feed item d = d \<and>
      process_items e feed (before @ item # after) d = process_items e feed (before @ after) d)"
proof (intro conjI)
  show "parsePubDate e s = Inr t \<longleftrightarrow>
      (\<exists>i<length formats. time_Parse e (formats ! i) s = Some t \<and>
                          (\<forall>j<i. time_Parse e (formats ! j) s = None))"
    by (simp only: parsePubDate_Inr_iff try_formats_Some_iff)
  show none: "parsePubDate e s = Inl (Errorf (''no matching format for pubDate: '' @ s)) \<longleftrightarrow>
      (\<forall>f\<in>set formats. time_Parse e f s = None)"
    by (simp only: parsePubDate_Inl_iff try_formats_None_iff simp_thms)
  show "parsePubDate e s = Inl err \<longrightarrow> err = Errorf (''no matching format for pubDate: '' @ s)"
    by (simp add: parsePubDate_Inl_iff)
  show "item_PubDate item = s \<and> (\<forall>f\<in>set formats. time_Parse e f s = None) \<longrightarrow>
      process_item e feed item d = d \<and>
      process_items e feed (before @ item # after) d = process_items e feed (before @ after) d"
  proof (intro impI, elim conjE)
    assume s: "item_PubDate item = s" and "\<forall>f\<in>set formats. time_Parse e f s = None"
    with none have "parsePubDate e (item_PubDate item) = Inl (Errorf (''no matching format for pubDate: '' @ s))"
      by simp
    then have skip: "process_item e feed item d' = d'" for d'
      by (rule process_item_unparseable)
    show "process_item e feed item d = d \<and>
      process_items e feed (before @ item # after) d = process_items e feed (before @ after) d"
      by (simp add: process_items_append skip)
  qed
qed

theorem parsePubDate_first_format_witness:
  "parsePubDate sample_env ''2024-08-20T10:20:30Z'' = Inr 1724149230000000000 \<and>
   parsePubDate sample_env ''yesterday'' = Inl (Errorf ''no matching format for pubDate: yesterday'') \<and>
   process_items sample_env up_feed ([sample_items ! 0] @ (sample_items ! 1) # [sample_items ! 2]) sample_db =
     process_items sample_env up_feed ([sample_items ! 0] @ [sample_items ! 2]) sample_db"
proof -
  have fs: "formats ! 4 = ''2006-01-02T15:04:05Z''" "length formats = 6"
    by (simp_all add: formats_def)
  have hit: "\<exists>i<length formats. time_Parse sample_env (formats ! i) ''2024-08-20T10:20:30Z'' = Some 1724149230000000000 \<and>
                (\<forall>j<i. time_Parse sample_env (formats ! j) ''2024-08-20T10:20:30Z'' = None)"
  proof (intro exI[of _ 4] conjI allI impI)
    show "4 < length formats" by (simp add: fs)
    show "time_Parse sample_env (formats ! 4) ''2024-08-20T10:20:30Z'' = Some 1724149230000000000"
      by (simp add: fs sample_env_def)
    fix j :: nat assume "j < 4"
    then have "j = 0 \<or> j = 1 \<or> j = 2 \<or> j = 3" by arith
    then show "time_Parse sample_env (formats ! j) ''2024-08-20T10:20:30Z'' = None"
      by (auto simp: formats_def sample_env_def)
  qed
  have miss: "\<forall>f\<in>set formats. time_Parse sample_env f ''yesterday'' = None"
    by (simp add: sample_env_def)
  have item: "item_PubDate (sample_items ! 1) = ''yesterday''"
    by (simp add: sample_items_def)
  have 1: "parsePubDate sample_env ''2024-08-20T10:20:30Z'' = Inr 1724149230000000000"
    using parsePubDate_first_format [of sample_env "''2024-08-20T10:20:30Z''" 1724149230000000000] hit by blast
  have 2: "parsePubDate sample_env ''yesterday'' = Inl (Errorf (''no matching format for pubDate: '' @ ''yesterday''))"
    using parsePubDate_first_format [of sample_env "''yesterday''"] miss by blast
  have 3: "process_items sample_env up_feed ([sample_items ! 0] @ (sample_items ! 1) # [sample_items ! 2]) sample_db
           = process_items sample_env up_feed ([sample_items ! 0] @ [sample_items ! 2]) sample_db"
    using parsePubDate_first_format [of sample_env "''yesterday''" _ _ "sample_items ! 1" up_feed sample_db "[sample_items ! 0]" "[sample_items ! 2]"]
      miss item by blast
  from 1 2 3 show ?thesis by simp
qed

section \<open>The control server\<close>

lemma Split_not_Nil: "Split s \<noteq> []"
  by (induction s) (auto split: list.splits)

lemma length_Split: "length (Split s) = Suc (count_list s (CHR '' ''))"
  by (induction s) (auto split: list.splits simp: Split_not_Nil)

lemma Resize_below_one:
  "k < 1 \<Longrightarrow> Resize k a rt = Returned (Some (Errorf ''workers must be at least 1''), a, rt)"
  by (simp add: Resize_def)

lemma Resize_unchanged_count:
  "1 \<le> workers a \<Longrightarrow> Resize (workers a) a rt = Returned (None, a, rt)"
  by (simp add: Resize_def)

lemma sample_trim [simp]:
  "TrimSpace sample_env = ascii_TrimSpace" "Atoi sample_env = decimal_Atoi"
  by (simp_all add: sample_env_def)

lemma started_eq:
  "started =
     (\<lparr>interval = 180000000000, workers = 3,
       ticker = Some \<lparr>period = 180000000000, next_tick = 180000000000\<rparr>,
       jobs = [], jobs_cap = 3, wg = 3, doneChans = [0, 1, 2]\<rparr>,
      \<lparr>next_chan = 3, closed_chans = [],
       goroutines = [Worker 0, Worker 1, Worker 2, TickLoop, ControlLoop]\<rparr>)"
  by (simp add: started_def Start_def NewTicker_def NewAggregator_def empty_runtime_def
      numeral_3_eq_3)

lemma handleControl_read_error:
  "handleControl e now None a rt = Returned (\<lparr>written = [], conn_closed = True\<rparr>, a, rt)"
  by (simp add: handleControl_def hangup_def)

text \<open>
  Claim C8. A line with fewer than two pieces between single spaces (after trimming), or
  whose first piece is neither \<^verbatim>\<open>set-interval\<close> nor \<^verbatim>\<open>set-workers\<close>, gets no reply: the
  handler writes nothing, closes the connection, and leaves the aggregator and the
  runtime as they were.
\<close>

theorem handleControl_silent:
  "length (Split (TrimSpace e bytes)) < 2 \<or>
   Split (TrimSpace e bytes) ! 0 \<notin> {''set-interval'', ''set-workers''} \<Longrightarrow>
   handleControl e now (Some bytes) a rt = Returned (\<lparr>written = [], conn_closed = True\<rparr>, a, rt)"
  by (auto simp: handleControl_def hangup_def Let_def)

theorem handleControl_silent_witness:
  "length (Split (TrimSpace sample_env (''set-workers'' @ newline))) < 2 \<and>
   handleControl sample_env 77 (Some (''set-workers'' @ newline)) (fst started) (snd started) =
     Returned (\<lparr>written = [], conn_closed = True\<rparr>, fst started, snd started) \<and>
   Split (TrimSpace sample_env (''restart now'' @ newline)) ! 0 \<notin> {''set-interval'', ''set-workers''} \<and>
   handleControl sample_env 77 (Some (''restart now'' @ newline)) (fst started) (snd started) =
     Returned (\<lparr>written = [], conn_closed = True\<rparr>, fst started, snd started)"
proof -
  have h1: "length (Split (TrimSpace sample_env (''set-workers'' @ newline))) < 2"
    by (simp add: ascii_TrimSpace_def is_space_def newline_def)
  have h2: "Split (TrimSpace sample_env (''restart now'' @ newline)) ! 0 \<notin> {''set-interval'', ''set-workers''}"
    by (simp add: ascii_TrimSpace_def is_space_def newline_def)
  from h1 h2 show ?thesis
    using handleControl_silent [where e = sample_env and bytes = "''set-workers'' @ newline" and now = 77
        and a = "fst started" and rt = "snd started"]
      handleControl_silent [where e = sample_env and bytes = "''restart now'' @ newline" and now = 77
        and a = "fst started" and rt = "snd started"]
    by blast
qed

text \<open>
  Claim C4. \<^verbatim>\<open>Resize\<close> with a count below 1 returns the error "workers must be at least
  1" and changes neither the aggregator (worker count, tracked stop channels) nor the
  runtime. Through \<^verbatim>\<open>set-workers\<close> that error text is written back and nothing changes;
  an argument that \<^verbatim>\<open>strconv.Atoi\<close> rejects is answered with "Invalid count" and
  nothing changes.
\<close>

theorem Resize_rejects_below_one:
  "(k < 1 \<longrightarrow> Resize k a rt = Returned (Some (Errorf ''workers must be at least 1''), a, rt)) \<and>
   (k < 1 \<and> Split (TrimSpace e bytes) = ''set-workers'' # arg # rest \<and> Atoi e arg = Some k \<longrightarrow>
      handleControl e now (Some bytes) a rt =
        Returned (\<lparr>written = [''Error resizing workers: workers must be at least 1'' @ newline],
                   conn_closed = True\<rparr>, a, rt)) \<and>
   (Split (TrimSpace e bytes) = ''set-workers'' # arg # rest \<and> Atoi e arg = None \<longrightarrow>
      handleControl e now (Some bytes) a rt =
        Returned (\<lparr>written = [''Invalid count'' @ newline], conn_closed = True\<rparr>, a, rt))"
  by (auto simp: handleControl_def hangup_def Let_def Resize_below_one)

theorem Resize_rejects_below_one_witness:
  "Resize (- 2) (fst started) (snd started) =
     Returned (Some (Errorf ''workers must be at least 1''), fst started, snd started) \<and>
   handleControl sample_env 77 (Some (''set-workers 0'' @ newline)) (fst started) (snd started) =
     Returned (\<lparr>written = [''Error resizing workers: workers must be at least 1'' @ newline],
                conn_closed = True\<rparr>, fst started, snd started) \<and>
   handleControl sample_env 77 (Some (''set-workers abc'' @ newline)) (fst started) (snd started) =
     Returned (\<lparr>written = [''Invalid count'' @ newline], conn_closed = True\<rparr>, fst started, snd started)"
proof -
  have l0: "Split (TrimSpace sample_env (''set-workers 0'' @ newline)) = ''set-workers'' # ''0'' # []"
    by (simp add: ascii_TrimSpace_def is_space_def newline_def)
  have a0: "Atoi sample_env ''0'' = Some 0"
    by (simp add: decimal_Atoi_def digit_val_def)
  have l1: "Split (TrimSpace sample_env (''set-workers abc'' @ newline)) = ''set-workers'' # ''abc'' # []"
    by (simp add: ascii_TrimSpace_def is_space_def newline_def)
  have a1: "Atoi sample_env ''abc'' = None"
    by (simp add: decimal_Atoi_def digit_val_def)
  have neg: "(- 2 :: int) < 1" "(0 :: int) < 1" by simp_all
  show ?thesis
    using Resize_rejects_below_one [where k = "- 2" and a = "fst started" and rt = "snd started"]
      Resize_rejects_below_one [where k = 0 and e = sample_env and bytes = "''set-workers 0'' @ newline"
        and arg = "''0''" and rest = "[]" and now = 77 and a = "fst started" and rt = "snd started"]
      Resize_rejects_below_one [where e = sample_env and bytes = "''set-workers abc'' @ newline"
        and arg = "''abc''" and rest = "[]" and now = 77 and a = "fst started" and rt = "snd started"]
      l0 a0 l1 a1 neg
    by blast
qed

text \<open>
  Claim C10. \<^verbatim>\<open>Resize\<close> to the count already in effect (at least 1) returns no error and
  changes nothing: no channel is made, no goroutine started, no channel closed, the
  tracked stop channels and the count stay. The reply of \<^verbatim>\<open>set-workers\<close> then names that
  count twice.
\<close>

theorem Resize_same_count:
  "1 \<le> workers a \<Longrightarrow>
   Resize (workers a) a rt = Returned (None, a, rt) \<and>
   (Split (TrimSpace e bytes) = ''set-workers'' # arg # rest \<and> Atoi e arg = Some (workers a) \<longrightarrow>
      handleControl e now (Some bytes) a rt =
        Returned (\<lparr>written = [''Number of workers changed from '' @ fmt_d (workers a) @ '' to ''
                               @ fmt_d (workers a) @ newline],
                   conn_closed = True\<rparr>, a, rt))"
  by (auto simp: handleControl_def hangup_def Let_def Resize_unchanged_count)

theorem Resize_same_count_witness:
  "1 \<le> workers (fst started) \<and>
   Resize 3 (fst started) (snd started) = Returned (None, fst started, snd started) \<and>
   handleControl sample_env 77 (Some (''set-workers 3'' @ newline)) (fst started) (snd started) =
     Returned (\<lparr>written = [''Number of workers changed from 3 to 3'' @ newline],
                conn_closed = True\<rparr>, fst started, snd started)"
proof -
  have w: "workers (fst started) = 3" by (simp add: started_eq)
  have h: "1 \<le> workers (fst started)" by (simp add: w)
  have l: "Split (TrimSpace sample_env (''set-workers 3'' @ newline)) = ''set-workers'' # ''3'' # []"
    by (simp add: ascii_TrimSpace_def is_space_def newline_def)
  have p: "Atoi sample_env ''3'' = Some (workers (fst started))"
    by (simp add: w decimal_Atoi_def digit_val_def)
  have f: "fmt_d 3 = ''3''" by (simp add: fmt_d_def digits.simps)
  show ?thesis
    using Resize_same_count [OF h, where rt = "snd started" and e = sample_env
        and bytes = "''set-workers 3'' @ newline" and arg = "''3''" and rest = "[]" and now = 77]
      h l p by (simp add: w f)
qed

text \<open>
  \<^verbatim>\<open>set-interval\<close> with an argument that does not parse: the reply is "Invalid duration"
  and nothing changes. With an argument that parses to a positive duration (and the
  ticker of a started aggregator): the period is stored, the ticker's next tick is one new
  period after the moment of the call, and the reply names the old and the new period.
\<close>

lemma set_interval_invalid:
  "Split (TrimSpace e bytes) = ''set-interval'' # arg # rest \<Longrightarrow> ParseDuration e arg = None \<Longrightarrow>
   handleControl e now (Some bytes) a rt =
     Returned (\<lparr>written = [''Invalid duration'' @ newline], conn_closed = True\<rparr>, a, rt)"
  by (simp add: handleControl_def hangup_def)

lemma set_interval_positive:
  "Split (TrimSpace e bytes) = ''set-interval'' # arg # rest \<Longrightarrow> ParseDuration e arg = Some dur \<Longrightarrow>
   0 < dur \<Longrightarrow> ticker a = Some t \<Longrightarrow>
   handleControl e now (Some bytes) a rt =
     Returned (\<lparr>written = [''Interval of fetching feeds changed from '' @ Duration_String e (interval a)
                            @ '' to '' @ Duration_String e dur @ newline],
                conn_closed = True\<rparr>,
               a\<lparr>interval := dur, ticker := Some (t\<lparr>period := dur, next_tick := now + dur\<rparr>)\<rparr>, rt)"
  by (simp add: handleControl_def hangup_def Ticker_Reset_def Let_def)

text \<open>
  Claim C6 fails on a duration that parses and is not positive (\<^verbatim>\<open>0s\<close>, \<^verbatim>\<open>-1s\<close>):
  \<^verbatim>\<open>a.ticker.Reset(dur)\<close> panics, so there is no reply and no reset timer; the handler
  has no check of the sign, unlike \<^verbatim>\<open>Resize\<close> for the worker count.
\<close>

theorem set_interval_nonpositive_panics:
  "Split (TrimSpace e bytes) = ''set-interval'' # arg # rest \<Longrightarrow> ParseDuration e arg = Some dur \<Longrightarrow>
   dur \<le> 0 \<Longrightarrow> handleControl e now (Some bytes) a rt = Panicked"
  by (simp add: handleControl_def hangup_def Ticker_Reset_def Let_def split: option.splits)

theorem set_interval_nonpositive_panics_witness:
  "Split (TrimSpace sample_env (''set-interval 0s'' @ newline)) = ''set-interval'' # ''0s'' # [] \<and>
   ParseDuration sample_env ''0s'' = Some 0 \<and>
   handleControl sample_env 77 (Some (''set-interval 0s'' @ newline)) (fst started) (snd started) = Panicked"
proof -
  have l: "Split (TrimSpace sample_env (''set-interval 0s'' @ newline)) = ''set-interval'' # ''0s'' # []"
    by (simp add: ascii_TrimSpace_def is_space_def newline_def)
  have p: "ParseDuration sample_env ''0s'' = Some 0"
    by (simp add: sample_env_def)
  have z: "(0 :: int) \<le> 0" by simp
  from l p show ?thesis
    using set_interval_nonpositive_panics [OF l p z, of 77 "fst started" "snd started"] by simp
qed

section \<open>The scheduler\<close>

lemma send_all_append: "send_all q fs = q @ fs"
  by (induction fs arbitrary: q) auto

lemma most_overdue_first_iff: "most_overdue_first r s \<longleftrightarrow> f_updated_at r \<le> f_updated_at s"
  by (auto simp: most_overdue_first_def split: option.splits)

lemma sorted_order_by: "sorted (map f_updated_at (order_by_updated_at rows))"
  by (simp add: order_by_updated_at_def)

lemma mset_order_by: "mset (order_by_updated_at rows) = mset rows"
  by (simp add: order_by_updated_at_def)

lemma length_outdated_rows:
  "0 \<le> n \<Longrightarrow> length (outdated_rows n rows) = min (length rows) (nat n)"
  by (simp add: outdated_rows_def order_by_updated_at_def min.commute)

lemma sorted_outdated_rows: "sorted_wrt most_overdue_first (outdated_rows n rows)"
proof -
  have "sorted (take (nat n) (map f_updated_at (order_by_updated_at rows)))"
    using sorted_order_by by (rule sorted_wrt_take)
  then have "sorted (map f_updated_at (outdated_rows n rows))"
    by (simp add: outdated_rows_def take_map)
  then have "sorted_wrt (\<lambda>r s. f_updated_at r \<le> f_updated_at s) (outdated_rows n rows)"
    by (simp add: sorted_map)
  then show ?thesis
    by (simp add: most_overdue_first_iff [abs_def])
qed

lemma mset_outdated_rows:
  "mset (outdated_rows n rows) + mset (drop (nat n) (order_by_updated_at rows)) = mset rows"
proof -
  have "mset (take (nat n) (order_by_updated_at rows) @ drop (nat n) (order_by_updated_at rows)) = mset rows"
    by (simp only: append_take_drop_id mset_order_by)
  then show ?thesis by (simp only: outdated_rows_def mset_append)
qed

lemma outdated_rows_before_rest:
  assumes "r \<in> set (outdated_rows n rows)" and "s \<in># mset rows - mset (outdated_rows n rows)"
  shows "most_overdue_first r s"
proof -
  let ?xs = "order_by_updated_at rows"
  have "mset rows - mset (outdated_rows n rows) = mset (drop (nat n) ?xs)"
    using mset_outdated_rows [of n rows] by (metis add_diff_cancel_left')
  with assms(2) have s: "s \<in> set (drop (nat n) ?xs)" by simp
  from assms(1) have r: "r \<in> set (take (nat n) ?xs)" by (simp add: outdated_rows_def)
  have "sorted (map f_updated_at (take (nat n) ?xs @ drop (nat n) ?xs))"
    using sorted_order_by by simp
  then have "\<forall>x\<in>set (take (nat n) ?xs). \<forall>y\<in>set (drop (nat n) ?xs). f_updated_at x \<le> f_updated_at y"
    unfolding map_append sorted_append by auto
  with r s show ?thesis by (simp add: most_overdue_first_iff)
qed

lemma tick_skipped:
  "fst (io_fault d) \<or> workers a < 0 \<Longrightarrow> fst (tick a d) = a"
  by (auto simp: tick_def GetOutdatedFeeds_def split: prod.splits bool.splits)

lemma tick_jobs:
  "\<not> fst (io_fault d) \<Longrightarrow> 0 \<le> workers a \<Longrightarrow>
   jobs (fst (tick a d)) = jobs a @ map scan_feed (outdated_rows (workers a) (feeds d))"
  by (auto simp: tick_def GetOutdatedFeeds_def send_all_append io_fault_def split: prod.splits list.splits)

text \<open>
  Claim C1. When the store answers the query (and the worker count is not negative), one
  tick appends to the queue the scanned rows \<open>outdated_rows W (feeds d)\<close>, in that order.
  They are \<open>min N W\<close> rows of the table, never-refreshed rows first and then by ascending
  refresh time, and every row left out is at most as overdue as every row taken.
\<close>

theorem tick_enqueues_most_overdue:
  assumes "\<not> fst (io_fault d)" and "0 \<le> workers a"
  shows "jobs (fst (tick a d)) = jobs a @ map scan_feed (outdated_rows (workers a) (feeds d)) \<and>
         length (outdated_rows (workers a) (feeds d)) = min (length (feeds d)) (nat (workers a)) \<and>
         sorted_wrt most_overdue_first (outdated_rows (workers a) (feeds d)) \<and>
         mset (outdated_rows (workers a) (feeds d)) \<subseteq># mset (feeds d) \<and>
         (\<forall>r\<in>set (outdated_rows (workers a) (feeds d)).
            \<forall>s\<in>#mset (feeds d) - mset (outdated_rows (workers a) (feeds d)). most_overdue_first r s)"
proof (intro conjI ballI)
  show "jobs (fst (tick a d)) = jobs a @ map scan_feed (outdated_rows (workers a) (feeds d))"
    using assms by (rule tick_jobs)
  show "length (outdated_rows (workers a) (feeds d)) = min (length (feeds d)) (nat (workers a))"
    using assms(2) by (rule length_outdated_rows)
  show "sorted_wrt most_overdue_first (outdated_rows (workers a) (feeds d))"
    by (rule sorted_outdated_rows)
  show "mset (outdated_rows (workers a) (feeds d)) \<subseteq># mset (feeds d)"
    using mset_outdated_rows [of "workers a" "feeds d"] by (metis mset_subset_eq_add_left)
next
  fix r s
  assume "r \<in> set (outdated_rows (workers a) (feeds d))"
    and "s \<in># mset (feeds d) - mset (outdated_rows (workers a) (feeds d))"
  then show "most_overdue_first r s" by (rule outdated_rows_before_rest)
qed

theorem tick_enqueues_most_overdue_witness:
  "\<not> fst (io_fault sample_db) \<and> 0 \<le> workers (NewAggregator 180000000000 2) \<and>
   map ID (jobs (fst (tick (NewAggregator 180000000000 2) sample_db))) = [2, 3] \<and>
   length (outdated_rows 2 (feeds sample_db)) = min 3 2 \<and>
   map f_updated_at (outdated_rows 2 (feeds sample_db)) = [None, Some 400]"
proof -
  have h1: "\<not> fst (io_fault sample_db)" by (simp add: io_fault_def sample_db_def)
  have h2: "0 \<le> workers (NewAggregator 180000000000 2)" by (simp add: NewAggregator_def)
  have w: "workers (NewAggregator 180000000000 2) = 2" "jobs (NewAggregator 180000000000 2) = []"
    by (simp_all add: NewAggregator_def)
  have rows: "outdated_rows 2 (feeds sample_db) = [feeds sample_db ! 1, feeds sample_db ! 2]"
    by (simp add: outdated_rows_def order_by_updated_at_def sample_db_def numeral_2_eq_2)
  have n: "length (feeds sample_db) = 3" by (simp add: sample_db_def)
  from tick_enqueues_most_overdue [OF h1 h2]
  have j: "jobs (fst (tick (NewAggregator 180000000000 2) sample_db)) =
          map scan_feed [feeds sample_db ! 1, feeds sample_db ! 2]"
    and l: "length (outdated_rows 2 (feeds sample_db)) = min 3 2"
    by (simp_all add: w n rows)
  have ids: "map ID (map scan_feed [feeds sample_db ! 1, feeds sample_db ! 2]) = [2, 3]"
    by (simp add: scan_feed_def sample_db_def)
  have keys: "map f_updated_at [feeds sample_db ! 1, feeds sample_db ! 2] = [None, Some 400]"
    by (simp add: sample_db_def)
  show ?thesis
    using h1 h2 l by (simp only: j ids rows keys simp_thms)
qed

section \<open>The worker pool\<close>

lemma spawn_workers_eq:
  "spawn_workers n (a, rt) =
     (a\<lparr>doneChans := doneChans a @ [next_chan rt ..< next_chan rt + n], wg := wg a + n\<rparr>,
      rt\<lparr>next_chan := next_chan rt + n,
         goroutines := goroutines rt @ map Worker [next_chan rt ..< next_chan rt + n]\<rparr>)"
proof (induction n arbitrary: a rt)
  case 0
  show ?case by simp
next
  case (Suc n)
  have "[next_chan rt ..< next_chan rt + Suc n] = next_chan rt # [Suc (next_chan rt) ..< Suc (next_chan rt) + n]"
    by (simp add: upt_conv_Cons)
  then show ?case by (simp add: Suc)
qed

lemma close_each_ok:
  "\<forall>i\<in>set is. i < length cs \<Longrightarrow> distinct (map ((!) cs) is) \<Longrightarrow>
   set (map ((!) cs) is) \<inter> set (closed_chans rt) = {} \<Longrightarrow>
   close_each cs is rt = Returned (rt\<lparr>closed_chans := closed_chans rt @ map ((!) cs) is\<rparr>)"
proof (induction "is" arbitrary: rt)
  case Nil
  show ?case by simp
next
  case (Cons i "is")
  from Cons.prems have i: "i < length cs" "cs ! i \<notin> set (closed_chans rt)" by auto
  let ?rt = "rt\<lparr>closed_chans := closed_chans rt @ [cs ! i]\<rparr>"
  have "close_each cs is ?rt = Returned (?rt\<lparr>closed_chans := closed_chans ?rt @ map ((!) cs) is\<rparr>)"
    using Cons.prems by (intro Cons.IH) auto
  with i show ?case by (simp add: close_chan_def)
qed

lemma map_nth_from: "map ((!) cs) [k ..< length cs] = drop k cs"
proof -
  have "drop k cs = drop k (map ((!) cs) [0 ..< length cs])" by (simp only: map_nth)
  also have "\<dots> = map ((!) cs) [k ..< length cs]" by (simp add: drop_map)
  finally show ?thesis by simp
qed

lemma Resize_grow:
  "1 \<le> k \<Longrightarrow> workers a < k \<Longrightarrow>
   Resize k a rt =
     Returned (None,
       a\<lparr>workers := k,
         doneChans := doneChans a @ [next_chan rt ..< next_chan rt + nat (k - workers a)],
         wg := wg a + nat (k - workers a)\<rparr>,
       rt\<lparr>next_chan := next_chan rt + nat (k - workers a),
          goroutines := goroutines rt @ map Worker [next_chan rt ..< next_chan rt + nat (k - workers a)]\<rparr>)"
  by (simp add: Resize_def spawn_workers_eq Let_def)

lemma Resize_shrink:
  assumes "pool_ok a rt" and "1 \<le> k" and "k < workers a"
  shows "Resize k a rt =
     Returned (None, a\<lparr>workers := k, doneChans := take (nat k) (doneChans a)\<rparr>,
               rt\<lparr>closed_chans := closed_chans rt @ drop (nat k) (doneChans a)\<rparr>)"
proof -
  from assms(1) have len: "length (doneChans a) = nat (workers a)"
    and dist: "distinct (doneChans a)"
    and open_: "\<forall>c\<in>set (doneChans a). c \<notin> set (closed_chans rt)"
    by (auto simp: pool_ok_def list_all_iff)
  have m: "map ((!) (doneChans a)) [nat k ..< nat (workers a)] = drop (nat k) (doneChans a)"
    using map_nth_from [of "doneChans a" "nat k"] by (simp add: len)
  have "close_each (doneChans a) [nat k ..< nat (workers a)] rt =
          Returned (rt\<lparr>closed_chans := closed_chans rt @ map ((!) (doneChans a)) [nat k ..< nat (workers a)]\<rparr>)"
  proof (rule close_each_ok)
    show "\<forall>i\<in>set [nat k ..< nat (workers a)]. i < length (doneChans a)" by (simp add: len)
    show "distinct (map ((!) (doneChans a)) [nat k ..< nat (workers a)])"
      using dist by (simp only: m distinct_drop)
    show "set (map ((!) (doneChans a)) [nat k ..< nat (workers a)]) \<inter> set (closed_chans rt) = {}"
      using open_ by (simp only: m) (auto dest: in_set_dropD)
  qed
  with assms(2,3) show ?thesis by (simp add: Resize_def m)
qed

lemma Resize_pool_ok:
  assumes "pool_ok a rt" and "Resize k a rt = Returned (err, a', rt')"
  shows "pool_ok a' rt'"
proof -
  consider "k < 1" | "1 \<le> k" "workers a < k" | "1 \<le> k" "k < workers a" | "1 \<le> k" "k = workers a"
    by linarith
  then show ?thesis
  proof cases
    case 1
    with assms show ?thesis by (simp add: Resize_def)
  next
    case 2
    from assms(2) have "a' = a\<lparr>workers := k,
         doneChans := doneChans a @ [next_chan rt ..< next_chan rt + nat (k - workers a)],
         wg := wg a + nat (k - workers a)\<rparr>"
      and "rt' = rt\<lparr>next_chan := next_chan rt + nat (k - workers a),
          goroutines := goroutines rt @ map Worker [next_chan rt ..< next_chan rt + nat (k - workers a)]\<rparr>"
      by (simp_all add: Resize_grow [OF 2])
    with assms(1) 2 show ?thesis
      by (auto simp: pool_ok_def list_all_iff)
  next
    case 3
    from assms(2) have "a' = a\<lparr>workers := k, doneChans := take (nat k) (doneChans a)\<rparr>"
      and "rt' = rt\<lparr>closed_chans := closed_chans rt @ drop (nat k) (doneChans a)\<rparr>"
      by (simp_all add: Resize_shrink [OF assms(1) 3])
    moreover have "set (take (nat k) (doneChans a)) \<inter> set (drop (nat k) (doneChans a)) = {}"
      using assms(1) by (simp add: pool_ok_def set_take_disj_set_drop_if_distinct)
    ultimately show ?thesis
      using assms(1) 3 by (auto simp: pool_ok_def list_all_iff dest: in_set_takeD in_set_dropD)
  next
    case 4
    with assms show ?thesis by (simp add: Resize_def)
  qed
qed

lemma Resize_no_panic: "pool_ok a rt \<Longrightarrow> Resize k a rt \<noteq> Panicked"
proof -
  assume ok: "pool_ok a rt"
  consider "k < 1" | "1 \<le> k" "workers a < k" | "1 \<le> k" "k < workers a" | "1 \<le> k" "k = workers a"
    by linarith
  then show ?thesis
  proof cases
    case 1 then show ?thesis by (simp add: Resize_def)
  next
    case 2 then show ?thesis by (simp add: Resize_grow)
  next
    case 3 then show ?thesis by (simp add: Resize_shrink [OF ok])
  next
    case 4 then show ?thesis by (simp add: Resize_def)
  qed
qed

lemma Start_pool_ok:
  assumes "doneChans a = []" and "list_all (\<lambda>c. c < next_chan rt) (closed_chans rt)"
    and "Start now listen a rt = Returned (err, a', rt')"
  shows "pool_ok a' rt' \<and> workers a' = workers a"
proof -
  from assms(3) have a': "a' = a\<lparr>ticker := Some \<lparr>period = interval a, next_tick = now + interval a\<rparr>,
              jobs := [], jobs_cap := workers a,
              doneChans := doneChans a @ [next_chan rt ..< next_chan rt + nat (workers a)],
              wg := wg a + nat (workers a)\<rparr>"
    and rt': "next_chan rt' = next_chan rt + nat (workers a)" "closed_chans rt' = closed_chans rt"
    and w: "0 \<le> workers a"
    by (auto simp: Start_def NewTicker_def spawn_workers_eq Let_def split: if_splits option.splits)
  have "c \<notin> set (closed_chans rt)" if "next_chan rt \<le> c" for c
    using that assms(2) by (auto simp: list_all_iff)
  with assms(1,2) w show ?thesis
    by (auto simp: a' rt' pool_ok_def list_all_iff)
qed

lemma Start_returns:
  "0 < interval a \<Longrightarrow> 0 \<le> workers a \<Longrightarrow> \<exists>a' rt'. Start now listen a rt = Returned (listen, a', rt')"
  by (auto simp: Start_def NewTicker_def spawn_workers_eq Let_def split: option.splits)

lemma started_pool_ok: "pool_ok (fst started) (snd started)"
  by (simp add: started_eq pool_ok_def)

text \<open>
  Claim C3. In a consistent pool with \<open>c \<ge> 1\<close> workers, \<^verbatim>\<open>Resize\<close> to \<open>k \<ge> 1\<close> returns no
  error and:
  \<^item> for \<open>k > c\<close> makes \<open>k - c\<close> fresh stop channels, appends them to the tracked ones
    and starts one worker for each; the tracked channels and goroutines there were stay
    in place and no channel is closed;
  \<^item> for \<open>k < c\<close> closes the tracked channels at the indices \<open>k, \<dots>, c - 1\<close> (in this
    order), which are the \<open>c - k\<close> that were appended last, and keeps the first \<open>k\<close>
    as the tracked ones; no goroutine is started;
  \<^item> in every case the count and the number of tracked channels are \<open>k\<close> afterwards, and
    neither the content nor the capacity of the queue changes.
\<close>

theorem Resize_grows_and_shrinks:
  assumes "pool_ok a rt" and "1 \<le> workers a" and "1 \<le> k"
  shows
    "(workers a < k \<longrightarrow>
        Resize k a rt =
          Returned (None,
            a\<lparr>workers := k,
              doneChans := doneChans a @ [next_chan rt ..< next_chan rt + nat (k - workers a)],
              wg := wg a + nat (k - workers a)\<rparr>,
            rt\<lparr>next_chan := next_chan rt + nat (k - workers a),
               goroutines := goroutines rt @
                 map Worker [next_chan rt ..< next_chan rt + nat (k - workers a)]\<rparr>) \<and>
        int (length [next_chan rt ..< next_chan rt + nat (k - workers a)]) = k - workers a \<and>
        set [next_chan rt ..< next_chan rt + nat (k - workers a)] \<inter>
          (set (doneChans a) \<union> set (closed_chans rt)) = {}) \<and>
     (k < workers a \<longrightarrow>
        Resize k a rt =
          Returned (None,
            a\<lparr>workers := k, doneChans := take (nat k) (doneChans a)\<rparr>,
            rt\<lparr>closed_chans := closed_chans rt @ drop (nat k) (doneChans a)\<rparr>) \<and>
        int (length (drop (nat k) (doneChans a))) = workers a - k) \<and>
     (\<exists>a' rt'. Resize k a rt = Returned (None, a', rt') \<and> workers a' = k \<and>
        length (doneChans a') = nat k \<and> jobs a' = jobs a \<and> jobs_cap a' = jobs_cap a)"
proof -
  from assms(1) have len: "length (doneChans a) = nat (workers a)"
    and made: "\<forall>c\<in>set (doneChans a). c < next_chan rt" "\<forall>c\<in>set (closed_chans rt). c < next_chan rt"
    by (auto simp: pool_ok_def list_all_iff)
  have grow: ?thesis if "workers a < k"
  proof -
    have "set [next_chan rt ..< next_chan rt + nat (k - workers a)] \<inter>
            (set (doneChans a) \<union> set (closed_chans rt)) = {}"
      using made by fastforce
    with that assms(2,3) len show ?thesis
      by (simp add: Resize_grow)
  qed
  have shrink: ?thesis if "k < workers a"
    using that assms(2,3) len by (simp add: Resize_shrink [OF assms(1)])
  have same: ?thesis if "k = workers a"
    using that assms(2) len by (simp add: Resize_def)
  consider "workers a < k" | "k < workers a" | "k = workers a" by linarith
  then show ?thesis
  proof cases
    case 1 then show ?thesis by (rule grow)
  next
    case 2 then show ?thesis by (rule shrink)
  next
    case 3 then show ?thesis by (rule same)
  qed
qed

theorem Resize_grows_and_shrinks_witness:
  "pool_ok (fst started) (snd started) \<and> 1 \<le> workers (fst started) \<and>
   Resize 5 (fst started) (snd started) =
     Returned (None,
       (fst started)\<lparr>workers := 5, doneChans := [0, 1, 2, 3, 4], wg := 5\<rparr>,
       (snd started)\<lparr>next_chan := 5,
          goroutines := [Worker 0, Worker 1, Worker 2, TickLoop, ControlLoop, Worker 3, Worker 4]\<rparr>) \<and>
   Resize 1 (fst started) (snd started) =
     Returned (None, (fst started)\<lparr>workers := 1, doneChans := [0]\<rparr>,
               (snd started)\<lparr>closed_chans := [1, 2]\<rparr>)"
proof -
  have ok: "pool_ok (fst started) (snd started)" by (rule started_pool_ok)
  have c: "1 \<le> workers (fst started)" by (simp add: started_eq)
  have up: "[3 ..< 5] = [3, 4 :: nat]" by (simp add: upt_conv_Cons)
  have "Resize 5 (fst started) (snd started) =
     Returned (None,
       (fst started)\<lparr>workers := 5, doneChans := [0, 1, 2, 3, 4], wg := 5\<rparr>,
       (snd started)\<lparr>next_chan := 5,
          goroutines := [Worker 0, Worker 1, Worker 2, TickLoop, ControlLoop, Worker 3, Worker 4]\<rparr>)"
    using Resize_grows_and_shrinks [OF ok c, of 5] by (simp add: started_eq up)
  moreover have "Resize 1 (fst started) (snd started) =
     Returned (None, (fst started)\<lparr>workers := 1, doneChans := [0]\<rparr>,
               (snd started)\<lparr>closed_chans := [1, 2]\<rparr>)"
    using Resize_grows_and_shrinks [OF ok c, of 1] by (simp add: started_eq)
  ultimately show ?thesis using ok c by simp
qed

section \<open>The worker and the store\<close>

lemma io_fault_tables [simp]:
  "feeds (snd (io_fault d)) = feeds d" "articles (snd (io_fault d)) = articles d"
  "clock (snd (io_fault d)) = clock d" "next_uuid (snd (io_fault d)) = next_uuid d"
  by (simp_all add: io_fault_def split: list.splits)

lemma io_fault_none [simp]: "faults d = [] \<Longrightarrow> io_fault d = (False, d)"
  by (simp add: io_fault_def)

lemma article_count_io_fault [simp]:
  "article_count i l (snd (io_fault d)) = article_count i l d"
  by (simp add: article_count_def)

lemma article_count_0_iff:
  "article_count i l d = 0 \<longleftrightarrow> (i, l) \<notin> set (map (\<lambda>r. (ar_feed_id r, ar_link r)) (articles d))"
  by (auto simp: article_count_def filter_empty_conv)

lemma distinct_key_filter_le_1:
  "distinct (map f xs) \<Longrightarrow> length (filter (\<lambda>x. f x = k) xs) \<le> Suc 0"
proof (induction xs)
  case Nil
  show ?case by simp
next
  case (Cons x xs)
  show ?case
  proof (cases "f x = k")
    case True
    with Cons.prems have "k \<notin> f ` set xs" by auto
    then have "filter (\<lambda>x. f x = k) xs = []" by (auto simp: filter_empty_conv)
    with True show ?thesis by simp
  next
    case False
    with Cons show ?thesis by simp
  qed
qed

lemma unique_links_count: "unique_links d \<Longrightarrow> article_count i l d \<le> 1"
proof -
  assume "unique_links d"
  then have "length (filter (\<lambda>r. (ar_feed_id r, ar_link r) = (i, l)) (articles d)) \<le> Suc 0"
    unfolding unique_links_def by (rule distinct_key_filter_le_1)
  then show ?thesis by (simp add: article_count_def)
qed

lemma ArticleExists_effect:
  assumes "ArticleExists i l d = ((ex, err), d1)"
  shows "feeds d1 = feeds d \<and> articles d1 = articles d \<and>
         (err = None \<longrightarrow> ex = (0 < article_count i l d))"
proof (cases "io_fault d")
  case (Pair b d')
  with io_fault_tables [of d] article_count_io_fault [of i l d]
  have "feeds d' = feeds d" "articles d' = articles d" "article_count i l d' = article_count i l d"
    by simp_all
  with assms Pair show ?thesis
    by (cases b) (auto simp: ArticleExists_def)
qed

lemma InsertArticle_effect:
  assumes "InsertArticle art d = (err, d2)"
  shows "feeds d2 = feeds d \<and>
         (articles d2 = articles d \<or>
          (\<exists>row. articles d2 = articles d @ [row] \<and> ar_feed_id row = FeedID art \<and>
                 ar_link row = Link art \<and> article_count (FeedID art) (Link art) d = 0))"
proof (cases "io_fault d")
  case (Pair b d')
  with io_fault_tables [of d] article_count_io_fault [of "FeedID art" "Link art" d]
  have "feeds d' = feeds d" "articles d' = articles d"
    "article_count (FeedID art) (Link art) d' = article_count (FeedID art) (Link art) d"
    by simp_all
  with assms Pair show ?thesis
    by (cases b) (auto simp: InsertArticle_def split: if_splits)
qed

text \<open>What one pass of the loop body can do to the store.\<close>

lemma process_item_effect:
  "feeds (process_item e feed item d) = feeds d \<and>
   (articles (process_item e feed item d) = articles d \<or>
    (\<exists>row. articles (process_item e feed item d) = articles d @ [row] \<and>
           ar_feed_id row = ID feed \<and> ar_link row = item_Link item \<and>
           article_count (ID feed) (item_Link item) d = 0))"
proof (cases "parsePubDate e (item_PubDate item)")
  case (Inl err)
  then show ?thesis by (simp add: process_item_def)
next
  case (Inr pubDate)
  let ?art = "\<lparr>Title = item_Title item, Link = item_Link item,
               Description = item_Description item, PublishedAt = pubDate, FeedID = ID feed\<rparr>"
  obtain ex err d1 where ae: "ArticleExists (ID feed) (item_Link item) d = ((ex, err), d1)"
    by (metis prod.exhaust)
  note d1 = ArticleExists_effect [OF ae]
  show ?thesis
  proof (cases "err = None \<and> \<not> ex")
    case False
    then have "process_item e feed item d = d1"
      using Inr ae by (cases err; cases ex) (simp_all add: process_item_def)
    with d1 show ?thesis by simp
  next
    case True
    then have p: "process_item e feed item d = snd (InsertArticle ?art d1)"
      using Inr ae by (simp add: process_item_def)
    obtain err2 d2 where ia: "InsertArticle ?art d1 = (err2, d2)" by (metis prod.exhaust)
    from InsertArticle_effect [OF ia] d1 True show ?thesis
      by (auto simp: p ia article_count_def)
  qed
qed

lemma process_item_unique_links:
  "unique_links d \<Longrightarrow> unique_links (process_item e feed item d)"
  using process_item_effect [of e feed item d]
  by (auto simp: unique_links_def article_count_0_iff)

lemma process_items_unique_links:
  "unique_links d \<Longrightarrow> unique_links (process_items e feed items d)"
  by (induction items arbitrary: d) (auto simp: process_item_unique_links)

lemma UpdateFeedUpdatedAt_articles [simp]:
  "articles (snd (UpdateFeedUpdatedAt i d)) = articles d"
proof (cases "io_fault d")
  case (Pair b d1)
  then show ?thesis
    using io_fault_tables(2) [of d] by (cases b) (auto simp: UpdateFeedUpdatedAt_def)
qed

lemma worker_job_unique_links:
  "unique_links d \<Longrightarrow> unique_links (worker_job e feed d)"
  by (auto simp: worker_job_def process_items_unique_links unique_links_def [of "snd _"]
      simp flip: unique_links_def split: sum.splits)

lemma process_item_present:
  assumes "0 < article_count (ID feed) (item_Link item) d"
  shows "articles (process_item e feed item d) = articles d"
  using process_item_effect [of e feed item d] assms by auto

lemma process_item_twice:
  assumes "articles (process_item e feed item d) \<noteq> articles d"
  shows "articles (process_item e feed item (process_item e feed item d)) =
         articles (process_item e feed item d)"
proof -
  from assms process_item_effect [of e feed item d]
  obtain row where "articles (process_item e feed item d) = articles d @ [row]"
    "ar_feed_id row = ID feed" "ar_link row = item_Link item" by auto
  then have "0 < article_count (ID feed) (item_Link item) (process_item e feed item d)"
    by (simp add: article_count_def)
  then show ?thesis by (rule process_item_present)
qed

lemma process_item_frame:
  "faults d = [] \<Longrightarrow>
   faults (process_item e feed item d) = [] \<and> clock (process_item e feed item d) = clock d \<and>
   feeds (process_item e feed item d) = feeds d"
  by (auto simp: process_item_def ArticleExists_def InsertArticle_def Let_def
      split: sum.splits bool.splits)

lemma process_items_frame:
  "faults d = [] \<Longrightarrow>
   faults (process_items e feed items d) = [] \<and> clock (process_items e feed items d) = clock d \<and>
   feeds (process_items e feed items d) = feeds d"
proof (induction items arbitrary: d)
  case Nil
  then show ?case by simp
next
  case (Cons item items)
  from process_item_frame [OF Cons.prems, of e feed item] Cons.IH [of "process_item e feed item d"]
  show ?case by simp
qed

lemma process_item_idle:
  "faults d = [] \<Longrightarrow> articles (process_item e feed item d) = articles d \<Longrightarrow>
   process_item e feed item d = d"
  by (auto simp: process_item_def ArticleExists_def InsertArticle_def Let_def
      split: sum.splits if_splits bool.splits)

lemma process_item_again:
  assumes "faults d = []"
  shows "articles (process_item e feed item (process_item e feed item d)) =
         articles (process_item e feed item d)"
proof (cases "articles (process_item e feed item d) = articles d")
  case True
  with assms have "process_item e feed item d = d" by (rule process_item_idle)
  then show ?thesis by simp
next
  case False
  then show ?thesis by (rule process_item_twice)
qed

text \<open>
  Claim C7. The worker keeps the pair (feed, link) unique among the stored articles: from
  a store where it is unique, a whole job leaves a store where it is unique, so no pair
  is stored more than once. An entry is inserted only when no article with its feed and
  link was stored, an entry whose pair is stored leaves the articles as they are, and so
  does processing an entry again after it was inserted (or after any first processing the
  store answered without a failure of its own).
\<close>

theorem one_article_per_feed_and_link:
  "(unique_links d \<longrightarrow>
      unique_links (process_item e feed item d) \<and> unique_links (worker_job e feed d) \<and>
      article_count i l (worker_job e feed d) \<le> 1) \<and>
   (articles (process_item e feed item d) \<noteq> articles d \<longrightarrow>
      article_count (ID feed) (item_Link item) d = 0 \<and>
      0 < article_count (ID feed) (item_Link item) (process_item e feed item d) \<and>
      articles (process_item e feed item (process_item e feed item d)) =
        articles (process_item e feed item d)) \<and>
   (0 < article_count (ID feed) (item_Link item) d \<longrightarrow>
      articles (process_item e feed item d) = articles d) \<and>
   (faults d = [] \<longrightarrow>
      articles (process_item e feed item (process_item e feed item d)) =
        articles (process_item e feed item d))"
proof (intro conjI impI)
  assume u: "unique_links d"
  then show "unique_links (process_item e feed item d)" by (rule process_item_unique_links)
  from u show w: "unique_links (worker_job e feed d)" by (rule worker_job_unique_links)
  then show "article_count i l (worker_job e feed d) \<le> 1" by (rule unique_links_count)
next
  assume ch: "articles (process_item e feed item d) \<noteq> articles d"
  with process_item_effect [of e feed item d]
  obtain row where row: "articles (process_item e feed item d) = articles d @ [row]"
    "ar_feed_id row = ID feed" "ar_link row = item_Link item"
    and z: "article_count (ID feed) (item_Link item) d = 0" by auto
  from z show "article_count (ID feed) (item_Link item) d = 0" .
  from row show "0 < article_count (ID feed) (item_Link item) (process_item e feed item d)"
    by (simp add: article_count_def)
  from ch show "articles (process_item e feed item (process_item e feed item d)) =
        articles (process_item e feed item d)" by (rule process_item_twice)
next
  assume "0 < article_count (ID feed) (item_Link item) d"
  then show "articles (process_item e feed item d) = articles d" by (rule process_item_present)
next
  assume "faults d = []"
  then show "articles (process_item e feed item (process_item e feed item d)) =
        articles (process_item e feed item d)" by (rule process_item_again)
qed

lemma sample_job:
  "worker_job sample_env up_feed sample_db =
     sample_db\<lparr>feeds := [(feeds sample_db ! 0)\<lparr>f_updated_at := Some 1000\<rparr>, feeds sample_db ! 1,
                          feeds sample_db ! 2],
               articles := [\<lparr>ar_id = 100, ar_created_at = 1000, ar_updated_at = None,
                             ar_title = ''First'', ar_link = ''http://up.example/1'',
                             ar_published_at = 1724149230000000000, ar_description = ''one'',
                             ar_feed_id = 1\<rparr>],
               next_uuid := 101\<rparr>"
  by (simp add: worker_job_def sample_env_def up_feed_def sample_items_def process_item_def
      parsePubDate_def formats_def ArticleExists_def InsertArticle_def UpdateFeedUpdatedAt_def
      article_count_def sample_db_def)

theorem one_article_per_feed_and_link_witness:
  "unique_links sample_db \<and> faults sample_db = [] \<and>
   unique_links (worker_job sample_env up_feed sample_db) \<and>
   article_count 1 ''http://up.example/1'' (worker_job sample_env up_feed sample_db) = 1 \<and>
   articles (process_item sample_env up_feed (sample_items ! 0) sample_db) \<noteq> articles sample_db \<and>
   articles (process_item sample_env up_feed (sample_items ! 0)
               (process_item sample_env up_feed (sample_items ! 0) sample_db)) =
     articles (process_item sample_env up_feed (sample_items ! 0) sample_db) \<and>
   articles (process_item sample_env up_feed (sample_items ! 2)
               (process_item sample_env up_feed (sample_items ! 0) sample_db)) =
     articles (process_item sample_env up_feed (sample_items ! 0) sample_db)"
proof -
  let ?d1 = "process_item sample_env up_feed (sample_items ! 0) sample_db"
  have u: "unique_links sample_db" by (simp add: unique_links_def sample_db_def)
  have f: "faults sample_db = []" by (simp add: sample_db_def)
  have d1: "articles ?d1 = [\<lparr>ar_id = 100, ar_created_at = 1000, ar_updated_at = None,
                             ar_title = ''First'', ar_link = ''http://up.example/1'',
                             ar_published_at = 1724149230000000000, ar_description = ''one'',
                             ar_feed_id = 1\<rparr>]"
    by (simp add: sample_env_def up_feed_def sample_items_def process_item_def
      parsePubDate_def formats_def ArticleExists_def InsertArticle_def
      article_count_def sample_db_def)
  have ch: "articles ?d1 \<noteq> articles sample_db" by (simp add: d1) (simp add: sample_db_def)
  have c1: "article_count 1 ''http://up.example/1'' (worker_job sample_env up_feed sample_db) = 1"
    by (simp add: sample_job article_count_def)
  have keys: "ID up_feed = 1" "item_Link (sample_items ! 2) = ''http://up.example/1''"
    by (simp_all add: up_feed_def sample_items_def)
  have again: "0 < article_count (ID up_feed) (item_Link (sample_items ! 2)) ?d1"
    by (simp only: keys article_count_def d1) simp
  from one_article_per_feed_and_link [of sample_db sample_env up_feed "sample_items ! 0"] u f ch
  have "unique_links (worker_job sample_env up_feed sample_db)"
    and "articles (process_item sample_env up_feed (sample_items ! 0) ?d1) = articles ?d1"
    by blast+
  moreover from one_article_per_feed_and_link [of ?d1 sample_env up_feed "sample_items ! 2"] again
  have "articles (process_item sample_env up_feed (sample_items ! 2) ?d1) = articles ?d1"
    by blast
  ultimately show ?thesis using u f ch c1 by simp
qed

section \<open>A feed whose fetch fails\<close>

lemma worker_job_fetch_failed:
  "FetchAndParse e (URL feed) = Inl err \<Longrightarrow> worker_job e feed d = d"
  by (simp add: worker_job_def)

text \<open>
  After a fetch that succeeds, and with a store that answers every call, the job ends by
  setting the refresh time of the feed's row to the store's clock, whatever happened to
  the entries.
\<close>

lemma worker_job_stamps_after_fetch:
  assumes "FetchAndParse e (URL feed) = Inr items" and "faults d = []"
  shows "refreshed_at (ID feed) (worker_job e feed d) =
         map (\<lambda>_. Some (clock d)) (refreshed_at (ID feed) d)"
proof -
  let ?d1 = "process_items e feed items d"
  from process_items_frame [OF assms(2), of e feed items]
  have fr: "faults ?d1 = []" "clock ?d1 = clock d" "feeds ?d1 = feeds d" by simp_all
  have "feeds (worker_job e feed d) =
          map (\<lambda>r. if f_id r = ID feed then r\<lparr>f_updated_at := Some (clock d)\<rparr> else r) (feeds d)"
    using assms(1) fr by (simp add: worker_job_def UpdateFeedUpdatedAt_def)
  then show ?thesis
    by (simp add: refreshed_at_def filter_map comp_def)
qed

text \<open>
  Claim C2 fails: the feed \<open>down_feed\<close> cannot be fetched, was never refreshed, and is
  still never refreshed after the worker's job, where the claim has its refresh time set
  to the time of the job.
\<close>

theorem fetch_failed_stamp_counterexample:
  "FetchAndParse sample_env (URL down_feed) = Inl (Errorf ''connection refused'') \<and>
   refreshed_at (ID down_feed) sample_db = [None] \<and>
   refreshed_at (ID down_feed) (worker_job sample_env down_feed sample_db) = [None] \<and>
   refreshed_at (ID down_feed) (worker_job sample_env down_feed sample_db) \<noteq> [Some (clock sample_db)]"
  by (simp add: worker_job_def sample_env_def down_feed_def refreshed_at_def sample_db_def)

text \<open>
  Claim C2 as amended. For a claimed feed whose fetch fails, the worker makes no call to
  the store: the store after the job is the store before it, the feed's refresh time is
  not set, and the next selection of outdated feeds is what it would have been.
\<close>

theorem fetch_failed_leaves_store:
  "FetchAndParse e (URL feed) = Inl err \<Longrightarrow>
   worker_job e feed d = d \<and>
   refreshed_at (ID feed) (worker_job e feed d) = refreshed_at (ID feed) d \<and>
   GetOutdatedFeeds n (worker_job e feed d) = GetOutdatedFeeds n d"
  by (simp add: worker_job_fetch_failed)

theorem fetch_failed_leaves_store_witness:
  "FetchAndParse sample_env (URL down_feed) = Inl (Errorf ''connection refused'') \<and>
   worker_job sample_env down_feed sample_db = sample_db \<and>
   refreshed_at (ID down_feed) (worker_job sample_env down_feed sample_db) =
     refreshed_at (ID down_feed) sample_db \<and>
   GetOutdatedFeeds 3 (worker_job sample_env down_feed sample_db) = GetOutdatedFeeds 3 sample_db"
proof -
  have h: "FetchAndParse sample_env (URL down_feed) = Inl (Errorf ''connection refused'')"
    by (simp add: sample_env_def down_feed_def)
  from fetch_failed_leaves_store [OF h, of sample_db 3] h show ?thesis by simp
qed

end
